theory Spec2Isabelle
  imports Main "HOL-Library.Word"
begin

section \<open>Platform values\<close>

text \<open>
  The proxy of \<^verbatim>\<open>src/pkcehandler.ts\<close> runs on Node. Its state is two insertion-ordered
  \<^verbatim>\<open>Map\<close>s and one JSON file; its inputs are the clock, the random source, the
  upstream token endpoint and the file system. Each of them is an explicit argument of
  the model.

  A time value is an integer number of milliseconds since the epoch: what
  \<^verbatim>\<open>Date.now()\<close> returns and what a clock reading \<^verbatim>\<open>new Date()\<close> holds.
  \<^verbatim>\<open>expires_in\<close> is a whole number of seconds. A byte of a \<^verbatim>\<open>Buffer\<close> is an
  8-bit word.
\<close>

type_synonym byte = "8 word"
type_synonym millis = int

subsection \<open>Dates\<close>

text \<open>
  A \<^verbatim>\<open>Date\<close> object holds a time value or is the Invalid Date (its time value is
  \<^verbatim>\<open>NaN\<close>). \<^verbatim>\<open>new Date(v)\<close> on a number \<open>v\<close> is the Invalid Date when \<open>v\<close> is
  more than 8.64e15 milliseconds away from the epoch. A comparison with the Invalid Date
  is false, whichever way it goes. The second argument of the two comparisons is a
  clock reading.
\<close>

datatype Date = At millis | Invalid_Date

definition new_Date_value :: "int \<Rightarrow> Date" where
  "new_Date_value v = (if \<bar>v\<bar> \<le> 8640000000000000 then At v else Invalid_Date)"

fun getTime :: "Date \<Rightarrow> millis option" where
  "getTime (At t) = Some t"
| "getTime Invalid_Date = None"

fun date_lt :: "Date \<Rightarrow> millis \<Rightarrow> bool" where
  "date_lt (At t) now = (t < now)"
| "date_lt Invalid_Date now = False"

fun date_gt :: "Date \<Rightarrow> millis \<Rightarrow> bool" where
  "date_gt (At t) now = (t > now)"
| "date_gt Invalid_Date now = False"

subsection \<open>Buffer encodings\<close>

text \<open>
  \<^verbatim>\<open>buf.toString("hex")\<close>: two lower-case hexadecimal digits for each byte.
\<close>

definition hex_digit :: "nat \<Rightarrow> char" where
  "hex_digit n = ''0123456789abcdef'' ! n"

fun hex :: "byte list \<Rightarrow> string" where
  "hex [] = []"
| "hex (b # bs) = hex_digit (unat b div 16) # hex_digit (unat b mod 16) # hex bs"

text \<open>
  \<^verbatim>\<open>buf.toString("base64url")\<close>: the alphabet of RFC 4648 section 5, three bytes
  to four characters, no padding at the end.
\<close>

definition base64url_alphabet :: string where
  "base64url_alphabet =
     ''ABCDEFGHIJKLMNOPQRSTUVWXYZabcdefghijklmnopqrstuvwxyz0123456789-_''"

definition base64url_char :: "nat \<Rightarrow> char" where
  "base64url_char n = base64url_alphabet ! n"

fun base64url :: "byte list \<Rightarrow> string" where
  "base64url (a # b # c # bs) =
     base64url_char (unat a div 4)
     # base64url_char (unat a mod 4 * 16 + unat b div 16)
     # base64url_char (unat b mod 16 * 4 + unat c div 64)
     # base64url_char (unat c mod 64)
     # base64url bs"
| "base64url [a, b] =
     [base64url_char (unat a div 4),
      base64url_char (unat a mod 4 * 16 + unat b div 16),
      base64url_char (unat b mod 16 * 4)]"
| "base64url [a] =
     [base64url_char (unat a div 4),
      base64url_char (unat a mod 4 * 16)]"
| "base64url [] = []"

text \<open>
  The characters a PKCE code verifier may use (RFC 7636, section 4.1): letters, digits
  and \<^verbatim>\<open>-\<close>, \<^verbatim>\<open>.\<close>, \<^verbatim>\<open>_\<close>, \<^verbatim>\<open>~\<close>, the characters that need no escaping in a
  URL.
\<close>

definition is_digit :: "char \<Rightarrow> bool" where
  "is_digit c = (48 \<le> (of_char c :: nat) \<and> (of_char c :: nat) \<le> 57)"

definition is_letter :: "char \<Rightarrow> bool" where
  "is_letter c =
     (65 \<le> (of_char c :: nat) \<and> (of_char c :: nat) \<le> 90
      \<or> 97 \<le> (of_char c :: nat) \<and> (of_char c :: nat) \<le> 122)"

definition url_safe :: "char \<Rightarrow> bool" where
  "url_safe c = (is_letter c \<or> is_digit c \<or> c \<in> set ''-._~'')"

text \<open>\<^verbatim>\<open>hash.update(str)\<close> hashes the bytes of the string.\<close>

definition utf8 :: "string \<Rightarrow> byte list" where
  "utf8 s = map (\<lambda>c. of_char c) s"

subsection \<open>The insertion-ordered Map\<close>

text \<open>
  A JavaScript \<^verbatim>\<open>Map\<close> keeps its entries in insertion order, one entry for each key:
  \<^verbatim>\<open>set\<close> on a key that is present replaces the value where it stands, on a new key
  it appends; \<^verbatim>\<open>delete\<close> removes the entry. Iteration (\<^verbatim>\<open>for ... of\<close>) visits
  the entries in that order, and deleting the entry being visited skips no other entry.
\<close>

type_synonym ('k, 'v) js_map = "('k \<times> 'v) list"

definition Map_keys :: "('k, 'v) js_map \<Rightarrow> 'k list" where
  "Map_keys m = map fst m"

definition Map_get :: "'k \<Rightarrow> ('k, 'v) js_map \<Rightarrow> 'v option" where
  "Map_get k m = map_of m k"

fun Map_set :: "'k \<Rightarrow> 'v \<Rightarrow> ('k, 'v) js_map \<Rightarrow> ('k, 'v) js_map" where
  "Map_set k v [] = [(k, v)]"
| "Map_set k v (e # m) = (if fst e = k then (k, v) # m else e # Map_set k v m)"

definition Map_delete :: "'k \<Rightarrow> ('k, 'v) js_map \<Rightarrow> ('k, 'v) js_map" where
  "Map_delete k m = filter (\<lambda>e. fst e \<noteq> k) m"

subsection \<open>Plain objects used as dictionaries\<close>

text \<open>
  \<^verbatim>\<open>saveTokensToDisk\<close> collects the entries in a plain object \<^verbatim>\<open>toStore = {}\<close>
  with \<^verbatim>\<open>toStore[key] = ...\<close>, and \<^verbatim>\<open>loadTokensFromDisk\<close> walks
  \<^verbatim>\<open>Object.entries(JSON.parse(data))\<close>. An object is modelled by its own enumerable
  properties in creation order. Two rules of the language separate it from a
  \<^verbatim>\<open>Map\<close>:
  \<^item> the assignment \<^verbatim>\<open>obj["__proto__"] = v\<close> on an object literal runs the setter
    inherited from \<^verbatim>\<open>Object.prototype\<close>: it replaces the prototype (\<open>v\<close> is an
    object here) and creates no own property, so \<^verbatim>\<open>JSON.stringify\<close> never sees it.
    \<^verbatim>\<open>JSON.parse\<close> defines properties directly, and a \<^verbatim>\<open>"__proto__"\<close> member of
    the text does become an own property;
  \<^item> own properties are enumerated (by \<^verbatim>\<open>JSON.stringify\<close> and
    \<^verbatim>\<open>Object.entries\<close>) with the array-index keys first, in ascending numeric order,
    then the other keys in creation order. An array index is the canonical decimal
    numeral of a number below \<open>2\<^sup>3\<^sup>2 - 1\<close>.
\<close>

type_synonym 'v js_object = "(string \<times> 'v) list"

definition obj_assign :: "string \<Rightarrow> 'v \<Rightarrow> 'v js_object \<Rightarrow> 'v js_object" where
  "obj_assign k v obj = (if k = ''__proto__'' then obj else Map_set k v obj)"

definition decimal_value :: "string \<Rightarrow> nat" where
  "decimal_value s = foldl (\<lambda>n c. 10 * n + (of_char c - 48)) 0 s"

definition is_array_index :: "string \<Rightarrow> bool" where
  "is_array_index s =
     (s \<noteq> [] \<and> list_all is_digit s \<and> (length s = 1 \<or> hd s \<noteq> CHR ''0'')
      \<and> decimal_value s < 4294967295)"

definition Object_entries :: "'v js_object \<Rightarrow> (string \<times> 'v) list" where
  "Object_entries obj =
     sort_key (\<lambda>e. decimal_value (fst e)) (filter (\<lambda>e. is_array_index (fst e)) obj)
     @ filter (\<lambda>e. \<not> is_array_index (fst e)) obj"

section \<open>Data model\<close>

text \<open>
  The interfaces of the source as records. A field name that two interfaces share
  carries a prefix in all but one of them (\<open>tx_expiresAt\<close>, \<open>ser_accessToken\<close>,
  \<open>cfg_clientId\<close>); an optional field is an \<open>option\<close>.
\<close>

record PKCETransaction =
  codeVerifier :: string
  codeChallenge :: string
  clientCallbackUrl :: string
  clientId :: string
  clientState :: string
  scope :: "string list"
  createdAt :: Date
  tx_expiresAt :: Date

record TokenData =
  accessToken :: string
  refreshToken :: "string option"
  expiresAt :: Date

text \<open>
  The serialised record holds the expiry as text. The text is modelled by what
  \<^verbatim>\<open>new Date(text)\<close> makes of it: the time value that \<^verbatim>\<open>toISOString\<close> wrote
  (the language guarantees that the two are inverse on valid dates), or no date at all.
\<close>

datatype date_string = ISOString millis | NotADate

record SerializedTokenData =
  ser_accessToken :: string
  ser_refreshToken :: "string option"
  ser_expiresAt :: date_string

text \<open>
  \<^verbatim>\<open>date.toISOString()\<close> throws a \<^verbatim>\<open>RangeError\<close> on the Invalid Date; \<open>None\<close> is
  the throw.
\<close>

fun toISOString :: "Date \<Rightarrow> date_string option" where
  "toISOString (At t) = Some (ISOString t)"
| "toISOString Invalid_Date = None"

text \<open>\<^verbatim>\<open>new Date(text)\<close>.\<close>

fun new_Date :: "date_string \<Rightarrow> Date" where
  "new_Date (ISOString t) = At t"
| "new_Date NotADate = Invalid_Date"

text \<open>
  The token file: missing, not parseable as JSON, or an object of serialised records
  (the type the code casts the parsed value to).
\<close>

datatype token_file = NoFile | Unparseable | Stored "SerializedTokenData js_object"

record config =
  baseUrl :: string
  cfg_clientId :: string
  tokenEndpoint :: string
  redirectPath :: string

text \<open>
  The state of a \<^verbatim>\<open>PKCEOAuthProxy\<close>: its two stores, the file at
  \<^verbatim>\<open>tokenStoragePath\<close>, and the number of times \<^verbatim>\<open>fs.writeFileSync\<close> was called
  on it.
\<close>

record proxy =
  cfg :: config
  transactions :: "(string, PKCETransaction) js_map"
  tokens :: "(string, TokenData) js_map"
  disk :: token_file
  writes :: nat

datatype exn =
    OAuthProxyError string string nat
  | TypeError
  | FetchError

section \<open>Operations\<close>

subsection \<open>Persistence\<close>

text \<open>
  The object literal that \<^verbatim>\<open>saveTokensToDisk\<close> builds for one entry; \<open>None\<close> when
  \<^verbatim>\<open>toISOString\<close> throws.
\<close>

definition serialize :: "TokenData \<Rightarrow> SerializedTokenData option" where
  "serialize v =
     (case toISOString (expiresAt v) of
        None \<Rightarrow> None
      | Some text \<Rightarrow>
          Some \<lparr>ser_accessToken = accessToken v, ser_refreshToken = refreshToken v,
                ser_expiresAt = text\<rparr>)"

text \<open>
  The loop of \<^verbatim>\<open>saveTokensToDisk\<close> over the Map; \<open>None\<close> when an entry throws, which
  ends the loop.
\<close>

fun collect_toStore ::
  "(string \<times> TokenData) list \<Rightarrow> SerializedTokenData js_object
     \<Rightarrow> SerializedTokenData js_object option" where
  "collect_toStore [] toStore = Some toStore"
| "collect_toStore ((key, v) # es) toStore =
     (case serialize v of
        None \<Rightarrow> None
      | Some sv \<Rightarrow> collect_toStore es (obj_assign key sv toStore))"

text \<open>
  \<^verbatim>\<open>saveTokensToDisk\<close>. The whole body stands in a \<^verbatim>\<open>try\<close>: when the loop throws,
  \<^verbatim>\<open>writeFileSync\<close> is not reached, the error is logged and nothing has changed. The
  argument \<open>fs_ok\<close> says whether \<^verbatim>\<open>writeFileSync\<close> succeeds; when it throws, the
  error is logged and the file is as before. Otherwise the file holds
  \<^verbatim>\<open>JSON.stringify(toStore)\<close>, whose members are the enumerated properties of
  \<^verbatim>\<open>toStore\<close>.
\<close>

definition saveTokensToDisk :: "bool \<Rightarrow> proxy \<Rightarrow> proxy" where
  "saveTokensToDisk fs_ok s =
     (case collect_toStore (tokens s) [] of
        None \<Rightarrow> s
      | Some toStore \<Rightarrow>
          s\<lparr>disk := (if fs_ok then Stored (Object_entries toStore) else disk s),
            writes := Suc (writes s)\<rparr>)"

text \<open>
  \<^verbatim>\<open>loadTokensFromDisk\<close>. The loop reads the clock once for each entry
  (\<^verbatim>\<open>expiresAt > new Date()\<close>); \<open>clock i\<close> is the reading at entry \<open>i\<close>.
\<close>

fun load_entries ::
  "(nat \<Rightarrow> millis) \<Rightarrow> nat \<Rightarrow> (string \<times> SerializedTokenData) list
     \<Rightarrow> (string, TokenData) js_map \<Rightarrow> (string, TokenData) js_map" where
  "load_entries clock i [] m = m"
| "load_entries clock i ((key, v) # es) m =
     load_entries clock (Suc i) es
       (let e = new_Date (ser_expiresAt v)
        in if date_gt e (clock i)
           then Map_set key
                  \<lparr>accessToken = ser_accessToken v, refreshToken = ser_refreshToken v,
                   expiresAt = e\<rparr> m
           else m)"

definition loadTokensFromDisk :: "(nat \<Rightarrow> millis) \<Rightarrow> proxy \<Rightarrow> proxy" where
  "loadTokensFromDisk clock s =
     (case disk s of
        NoFile \<Rightarrow> s
      | Unparseable \<Rightarrow> s
      | Stored stored \<Rightarrow> s\<lparr>tokens := load_entries clock 0 (Object_entries stored) (tokens s)\<rparr>)"

text \<open>
  The constructor: both Maps empty, then \<^verbatim>\<open>loadTokensFromDisk\<close>. The file found at
  \<^verbatim>\<open>tokenStoragePath\<close> is an argument.
\<close>

definition new_PKCEOAuthProxy :: "config \<Rightarrow> token_file \<Rightarrow> (nat \<Rightarrow> millis) \<Rightarrow> proxy" where
  "new_PKCEOAuthProxy options f clock =
     loadTokensFromDisk clock
       \<lparr>cfg = options, transactions = [], tokens = [], disk = f, writes = 0\<rparr>"

subsection \<open>PKCE material and identifiers\<close>

text \<open>
  \<^verbatim>\<open>generatePKCE\<close> and \<^verbatim>\<open>generateId\<close>. The argument \<open>rnd\<close> is what
  \<^verbatim>\<open>crypto.randomBytes(n)\<close> returned (\<open>n\<close> bytes); \<open>sha256\<close> is the digest of
  Node's \<^verbatim>\<open>crypto\<close> module.
\<close>

record pkce =
  verifier :: string
  challenge :: string

definition generatePKCE :: "(byte list \<Rightarrow> byte list) \<Rightarrow> byte list \<Rightarrow> pkce" where
  "generatePKCE sha256 rnd =
     (let v = base64url rnd;
          c = base64url (sha256 (utf8 v))
      in \<lparr>verifier = v, challenge = c\<rparr>)"

definition generateId :: "byte list \<Rightarrow> string" where
  "generateId rnd = hex rnd"

subsection \<open>Callback\<close>

text \<open>
  The request is read through \<^verbatim>\<open>url.searchParams.get\<close>, which yields the first
  value of a parameter, or \<^verbatim>\<open>null\<close>. The test \<^verbatim>\<open>!x\<close> holds of
  \<^verbatim>\<open>null\<close> and of the empty string.
\<close>

record Request =
  searchParams :: "(string \<times> string) list"

definition searchParams_get :: "string \<Rightarrow> Request \<Rightarrow> string option" where
  "searchParams_get name request = map_of (searchParams request) name"

text \<open>The form the proxy posts to the upstream token endpoint, and what comes back.\<close>

record token_request =
  req_url :: string
  req_grant_type :: string
  req_code :: string
  req_client_id :: string
  req_redirect_uri :: string
  req_code_verifier :: string

record upstream_tokens =
  up_access_token :: string
  up_refresh_token :: "string option"
  up_expires_in :: "int option"

datatype upstream_reply =
    Reply_ok upstream_tokens
  | Reply_not_ok string
  | Reply_throws

text \<open>
  A \<^verbatim>\<open>Response\<close> is either a JSON error body with a status, an error name and
  optional details, or a redirect to a URL on which query parameters were set.
\<close>

datatype Response =
    Json_error nat string "string option"
  | Redirect nat string "(string \<times> string) list"

text \<open>
  What \<^verbatim>\<open>handleCallback\<close> takes from outside: the clock when the transaction's
  expiry is tested, the upstream endpoint, the clock when the token is minted, the random
  bytes of the proxy code, whether the file can be written, and which strings
  \<^verbatim>\<open>new URL\<close> accepts.
\<close>

record callback_world =
  cb_now :: millis
  cb_upstream :: "token_request \<Rightarrow> upstream_reply"
  cb_now_mint :: millis
  cb_random :: "byte list"
  cb_fs_ok :: bool
  cb_url_valid :: "string \<Rightarrow> bool"

text \<open>
  \<^verbatim>\<open>handleCallback\<close>, run without another handler or the sweeper in between at its
  two \<^verbatim>\<open>await\<close>s. An exception that leaves the function (a rejected promise) is
  \<open>Inl\<close>. \<^verbatim>\<open>tokens.expires_in || 3600\<close> takes the default for a missing value and
  for zero.
\<close>

definition handleCallback ::
  "callback_world \<Rightarrow> Request \<Rightarrow> proxy \<Rightarrow> (exn + Response) \<times> proxy" where
  "handleCallback w request s =
     (case searchParams_get ''state'' request of
        None \<Rightarrow> (Inr (Json_error 400 ''missing_state'' None), s)
      | Some state \<Rightarrow>
        if state = [] then (Inr (Json_error 400 ''missing_state'' None), s)
        else
        (case searchParams_get ''code'' request of
           None \<Rightarrow> (Inr (Json_error 400 ''missing_code'' None), s)
         | Some code \<Rightarrow>
           if code = [] then (Inr (Json_error 400 ''missing_code'' None), s)
           else
           (case Map_get state (transactions s) of
              None \<Rightarrow> (Inr (Json_error 400 ''invalid_state'' None), s)
            | Some transaction \<Rightarrow>
              if date_lt (tx_expiresAt transaction) (cb_now w)
              then (Inr (Json_error 400 ''transaction_expired'' None),
                    s\<lparr>transactions := Map_delete state (transactions s)\<rparr>)
              else
              (case cb_upstream w
                      \<lparr>req_url = tokenEndpoint (cfg s),
                       req_grant_type = ''authorization_code'',
                       req_code = code,
                       req_client_id = cfg_clientId (cfg s),
                       req_redirect_uri = baseUrl (cfg s) @ redirectPath (cfg s),
                       req_code_verifier = codeVerifier transaction\<rparr> of
                 Reply_throws \<Rightarrow> (Inl FetchError, s)
               | Reply_not_ok err \<Rightarrow>
                   (Inr (Json_error 400 ''token_exchange_failed'' (Some err)), s)
               | Reply_ok toks \<Rightarrow>
                   (let proxyToken = generateId (cb_random w);
                        lifetime = (case up_expires_in toks of
                                      None \<Rightarrow> 3600
                                    | Some n \<Rightarrow> if n = 0 then 3600 else n);
                        s1 = s\<lparr>tokens :=
                                 Map_set proxyToken
                                   \<lparr>accessToken = up_access_token toks,
                                    refreshToken = up_refresh_token toks,
                                    expiresAt =
                                      new_Date_value (cb_now_mint w + lifetime * 1000)\<rparr>
                                   (tokens s)\<rparr>;
                        s2 = saveTokensToDisk (cb_fs_ok w) s1
                    in if \<not> cb_url_valid w (clientCallbackUrl transaction)
                       then (Inl TypeError, s2)
                       else (Inr (Redirect 302 (clientCallbackUrl transaction)
                                    [(''code'', proxyToken),
                                     (''state'', clientState transaction)]),
                             s2\<lparr>transactions := Map_delete state (transactions s2)\<rparr>))))))"

subsection \<open>Token endpoint\<close>

record exchange_params =
  grant_type :: string
  code :: "string option"
  client_id :: string
  redirect_uri :: string
  code_verifier :: "string option"
  client_secret :: "string option"

text \<open>
  The object the token endpoint returns. The source sets three properties;
  \<^verbatim>\<open>refresh_token\<close> and \<^verbatim>\<open>scope\<close> are never set.
\<close>

record TokenResponse =
  access_token :: string
  token_type :: string
  expires_in :: int
  refresh_token :: "string option"
  resp_scope :: "string option"

text \<open>
  \<^verbatim>\<open>exchangeAuthorizationCode\<close>. \<open>now\<close> is \<^verbatim>\<open>Date.now()\<close>, \<open>rnd\<close> the random
  bytes of the new key. \<^verbatim>\<open>Math.floor(x / 1000)\<close> on integers is \<open>div\<close>, which
  rounds down; on the Invalid Date \<^verbatim>\<open>expiresIn\<close> is \<^verbatim>\<open>NaN\<close> (here \<open>None\<close>), and
  \<^verbatim>\<open>NaN > 0\<close> is false.
\<close>

definition exchangeAuthorizationCode ::
  "millis \<Rightarrow> byte list \<Rightarrow> bool \<Rightarrow> exchange_params \<Rightarrow> proxy
     \<Rightarrow> (exn + TokenResponse) \<times> proxy" where
  "exchangeAuthorizationCode now rnd fs_ok params s =
     (case code params of
        None \<Rightarrow> (Inl (OAuthProxyError ''invalid_request'' ''Missing authorization code'' 400), s)
      | Some c \<Rightarrow>
        if c = []
        then (Inl (OAuthProxyError ''invalid_request'' ''Missing authorization code'' 400), s)
        else
        (case Map_get c (tokens s) of
           None \<Rightarrow>
             (Inl (OAuthProxyError ''invalid_grant''
                     ''Invalid or expired authorization code'' 400), s)
         | Some tokenData \<Rightarrow>
             (let s1 = s\<lparr>tokens := Map_delete c (tokens s)\<rparr>;
                  accessToken = generateId rnd;
                  s2 = s1\<lparr>tokens := Map_set accessToken tokenData (tokens s1)\<rparr>;
                  s3 = saveTokensToDisk fs_ok s2;
                  expiresIn = map_option (\<lambda>t. (t - now) div 1000)
                                (getTime (expiresAt tokenData))
              in (Inr \<lparr>access_token = accessToken,
                       token_type = ''Bearer'',
                       expires_in = (case expiresIn of
                                       None \<Rightarrow> 3600
                                     | Some e \<Rightarrow> if e > 0 then e else 3600),
                       refresh_token = None,
                       resp_scope = None\<rparr>,
                  s3))))"

record refresh_params =
  rf_grant_type :: string
  rf_refresh_token :: string
  rf_client_id :: string
  rf_client_secret :: "string option"

definition exchangeRefreshToken ::
  "refresh_params \<Rightarrow> proxy \<Rightarrow> (exn + TokenResponse) \<times> proxy" where
  "exchangeRefreshToken params s =
     (Inl (OAuthProxyError ''invalid_grant''
             ''Refresh tokens are not supported. Please re-authenticate.'' 400), s)"

subsection \<open>Token validation\<close>

definition loadUpstreamTokens ::
  "millis \<Rightarrow> bool \<Rightarrow> string \<Rightarrow> proxy \<Rightarrow> TokenData option \<times> proxy" where
  "loadUpstreamTokens now fs_ok proxyToken s =
     (case Map_get proxyToken (tokens s) of
        None \<Rightarrow> (None, s)
      | Some data \<Rightarrow>
          if date_lt (expiresAt data) now
          then (None, saveTokensToDisk fs_ok (s\<lparr>tokens := Map_delete proxyToken (tokens s)\<rparr>))
          else (Some data, s))"

fun first_valid :: "millis \<Rightarrow> (string \<times> TokenData) list \<Rightarrow> TokenData option" where
  "first_valid now [] = None"
| "first_valid now ((key, token) # es) =
     (if date_gt (expiresAt token) now then Some token else first_valid now es)"

definition getFirstValidToken :: "millis \<Rightarrow> proxy \<Rightarrow> TokenData option \<times> proxy" where
  "getFirstValidToken now s = (first_valid now (tokens s), s)"

subsection \<open>Sweeper\<close>

text \<open>
  One run of the function that \<^verbatim>\<open>startCleanup\<close> hands to \<^verbatim>\<open>setInterval\<close>. Each
  loop walks the entries the Map had when the loop began and deletes from the Map as it
  goes; the second loop also raises \<^verbatim>\<open>tokensChanged\<close>.
\<close>

fun sweep_transactions ::
  "millis \<Rightarrow> (string \<times> PKCETransaction) list \<Rightarrow> (string, PKCETransaction) js_map
     \<Rightarrow> (string, PKCETransaction) js_map" where
  "sweep_transactions now [] m = m"
| "sweep_transactions now ((key, tx) # es) m =
     sweep_transactions now es
       (if date_lt (tx_expiresAt tx) now then Map_delete key m else m)"

fun sweep_tokens ::
  "millis \<Rightarrow> (string \<times> TokenData) list \<Rightarrow> (string, TokenData) js_map \<times> bool
     \<Rightarrow> (string, TokenData) js_map \<times> bool" where
  "sweep_tokens now [] (m, tokensChanged) = (m, tokensChanged)"
| "sweep_tokens now ((key, token) # es) (m, tokensChanged) =
     sweep_tokens now es
       (if date_lt (expiresAt token) now then (Map_delete key m, True)
        else (m, tokensChanged))"

definition cleanup_pass :: "millis \<Rightarrow> bool \<Rightarrow> proxy \<Rightarrow> proxy" where
  "cleanup_pass now fs_ok s =
     (let txs = sweep_transactions now (transactions s) (transactions s);
          (toks, tokensChanged) = sweep_tokens now (tokens s) (tokens s, False);
          s1 = s\<lparr>transactions := txs, tokens := toks\<rparr>
      in if tokensChanged then saveTokensToDisk fs_ok s1 else s1)"

subsection \<open>The invariant of the two Maps\<close>

text \<open>
  A list stands for a \<^verbatim>\<open>Map\<close> when no key occurs twice in it. Every operation
  keeps this (shown below), and the constructor establishes it.
\<close>

definition one_entry_per_key :: "proxy \<Rightarrow> bool" where
  "one_entry_per_key s =
     (distinct (Map_keys (transactions s)) \<and> distinct (Map_keys (tokens s)))"

section \<open>Example values\<close>

text \<open>
  Concrete configurations, requests and states, used to run the operations in the
  theorems below. Identifiers are made by \<open>generateId\<close> from sixteen bytes.
\<close>

definition example_cfg :: config where
  "example_cfg =
     \<lparr>baseUrl = ''http://localhost:3000'', cfg_clientId = ''reflect-mcp'',
      tokenEndpoint = ''https://reflect.app/api/oauth/token'',
      redirectPath = ''/oauth/callback''\<rparr>"

definition bytes_a :: "byte list" where
  "bytes_a = [0, 1, 2, 3, 4, 5, 6, 7, 8, 9, 10, 11, 12, 13, 14, 15]"

definition bytes_b :: "byte list" where
  "bytes_b =
     [255, 254, 253, 252, 251, 250, 249, 248, 247, 246, 245, 244, 243, 242, 241, 240]"

definition token_U1 :: TokenData where
  "token_U1 = \<lparr>accessToken = ''U1'', refreshToken = None, expiresAt = At 620000\<rparr>"

definition token_U2 :: TokenData where
  "token_U2 = \<lparr>accessToken = ''U2'', refreshToken = Some ''R2'', expiresAt = At 4200000\<rparr>"

definition tx_old :: PKCETransaction where
  "tx_old =
     \<lparr>codeVerifier = ''verifier'', codeChallenge = ''challenge'',
      clientCallbackUrl = ''https://client/cb'', clientId = ''abc'',
      clientState = ''xyz'', scope = [''read''], createdAt = At 0,
      tx_expiresAt = At 600000\<rparr>"

definition proxy_with_code :: proxy where
  "proxy_with_code =
     \<lparr>cfg = example_cfg, transactions = [], tokens = [(generateId bytes_a, token_U1)],
      disk = NoFile, writes = 0\<rparr>"

definition proxy_with_tx :: proxy where
  "proxy_with_tx =
     \<lparr>cfg = example_cfg, transactions = [(generateId bytes_a, tx_old)], tokens = [],
      disk = NoFile, writes = 0\<rparr>"

definition proxy_mixed :: proxy where
  "proxy_mixed =
     \<lparr>cfg = example_cfg, transactions = [(generateId bytes_a, tx_old)],
      tokens = [(generateId bytes_a, token_U1), (generateId bytes_b, token_U2)],
      disk = NoFile, writes = 0\<rparr>"

definition code_params :: "string option \<Rightarrow> exchange_params" where
  "code_params c =
     \<lparr>grant_type = ''authorization_code'', code = c, client_id = ''abc'',
      redirect_uri = ''https://client/cb'', code_verifier = None, client_secret = None\<rparr>"

definition refresh_request :: "string \<Rightarrow> refresh_params" where
  "refresh_request t =
     \<lparr>rf_grant_type = ''refresh_token'', rf_refresh_token = t, rf_client_id = ''abc'',
      rf_client_secret = None\<rparr>"

definition response_20 :: TokenResponse where
  "response_20 =
     \<lparr>access_token = generateId bytes_b, token_type = ''Bearer'', expires_in = 20,
      refresh_token = None, resp_scope = None\<rparr>"

definition response_3600 :: TokenResponse where
  "response_3600 =
     \<lparr>access_token = generateId bytes_b, token_type = ''Bearer'', expires_in = 3600,
      refresh_token = None, resp_scope = None\<rparr>"

definition request_both :: Request where
  "request_both =
     \<lparr>searchParams = [(''code'', ''upstreamcode123''), (''state'', generateId bytes_a)]\<rparr>"

definition request_state_only :: Request where
  "request_state_only = \<lparr>searchParams = [(''state'', generateId bytes_a)]\<rparr>"

definition request_bare :: Request where
  "request_bare = \<lparr>searchParams = []\<rparr>"

definition upstream_down :: "token_request \<Rightarrow> upstream_reply" where
  "upstream_down rq = Reply_throws"

definition every_url :: "string \<Rightarrow> bool" where
  "every_url u = True"

definition world_late :: callback_world where
  "world_late =
     \<lparr>cb_now = 630000, cb_upstream = upstream_down, cb_now_mint = 630000,
      cb_random = bytes_b, cb_fs_ok = True, cb_url_valid = every_url\<rparr>"

definition bytes_32 :: "byte list" where
  "bytes_32 = bytes_a @ bytes_b"

definition example_digest :: "byte list \<Rightarrow> byte list" where
  "example_digest bs = take 32 (bs @ replicate 32 0)"

definition token_P :: TokenData where
  "token_P = \<lparr>accessToken = ''U3'', refreshToken = None, expiresAt = At 4200000\<rparr>"

definition file_proto :: token_file where
  "file_proto =
     Stored [(''__proto__'',
              \<lparr>ser_accessToken = ''U3'', ser_refreshToken = None,
               ser_expiresAt = ISOString 4200000\<rparr>)]"

definition clock_late :: "nat \<Rightarrow> millis" where
  "clock_late i = 630000"

text \<open>
  A record whose expiry is the Invalid Date, the upstream answer that makes
  \<open>handleCallback\<close> mint it (a lifetime of ten million million seconds), and stores
  that hold it.
\<close>

definition bytes_c :: "byte list" where
  "bytes_c = [16, 17, 18, 19, 20, 21, 22, 23, 24, 25, 26, 27, 28, 29, 30, 31]"

definition token_bad :: TokenData where
  "token_bad = \<lparr>accessToken = ''U4'', refreshToken = None, expiresAt = Invalid_Date\<rparr>"

definition upstream_huge :: "token_request \<Rightarrow> upstream_reply" where
  "upstream_huge rq =
     Reply_ok \<lparr>up_access_token = ''U4'', up_refresh_token = None,
               up_expires_in = Some 10000000000000\<rparr>"

definition world_huge :: callback_world where
  "world_huge =
     \<lparr>cb_now = 630000, cb_upstream = upstream_huge, cb_now_mint = 630000,
      cb_random = bytes_c, cb_fs_ok = True, cb_url_valid = every_url\<rparr>"

definition tx_live :: PKCETransaction where
  "tx_live =
     \<lparr>codeVerifier = ''verifier'', codeChallenge = ''challenge'',
      clientCallbackUrl = ''https://client/cb'', clientId = ''abc'',
      clientState = ''xyz'', scope = [''read''], createdAt = At 600000,
      tx_expiresAt = At 1200000\<rparr>"

definition proxy_with_live_tx :: proxy where
  "proxy_with_live_tx =
     \<lparr>cfg = example_cfg, transactions = [(generateId bytes_a, tx_live)],
      tokens = [(generateId bytes_b, token_U2)], disk = NoFile, writes = 0\<rparr>"


section \<open>Facts about the Map and the identifiers\<close>

lemma Map_get_Map_set:
  "Map_get k' (Map_set k v m) = (if k' = k then Some v else Map_get k' m)"
  by (induction m) (auto simp: Map_get_def)

lemma Map_get_Map_delete:
  "Map_get k' (Map_delete k m) = (if k' = k then None else Map_get k' m)"
  by (induction m) (auto simp: Map_get_def Map_delete_def)

lemma keys_Map_set:
  "set (Map_keys (Map_set k v m)) = insert k (set (Map_keys m))"
  by (induction m) (auto simp: Map_keys_def)

lemma distinct_Map_set:
  "distinct (Map_keys m) \<Longrightarrow> distinct (Map_keys (Map_set k v m))"
proof (induction m)
  case Nil
  then show ?case by (simp add: Map_keys_def)
next
  case (Cons e m)
  have "set (Map_keys (Map_set k v m)) = insert k (set (Map_keys m))"
    by (rule keys_Map_set)
  with Cons show ?case by (auto simp: Map_keys_def)
qed

lemma distinct_Map_delete:
  "distinct (Map_keys m) \<Longrightarrow> distinct (Map_keys (Map_delete k m))"
  by (simp add: Map_keys_def Map_delete_def distinct_map_filter)

lemma length_hex: "length (hex bs) = 2 * length bs"
  by (induction bs) auto

lemma length_generateId: "length (generateId rnd) = 2 * length rnd"
  by (simp add: generateId_def length_hex)

lemma generateId_bytes_a: "generateId bytes_a = ''000102030405060708090a0b0c0d0e0f''"
  by (simp add: generateId_def bytes_a_def hex_digit_def)

lemma generateId_bytes_b: "generateId bytes_b = ''fffefdfcfbfaf9f8f7f6f5f4f3f2f1f0''"
  by (simp add: generateId_def bytes_b_def hex_digit_def)

lemma generateId_bytes_c: "generateId bytes_c = ''101112131415161718191a1b1c1d1e1f''"
  by (simp add: generateId_def bytes_c_def hex_digit_def)

lemma saveTokensToDisk_stores:
  "tokens (saveTokensToDisk fs_ok s) = tokens s"
  "transactions (saveTokensToDisk fs_ok s) = transactions s"
  by (simp_all add: saveTokensToDisk_def split: option.splits)

text \<open>The loop of the save throws exactly when some record holds the Invalid Date.\<close>

lemma serialize_None: "serialize v = None \<longleftrightarrow> expiresAt v = Invalid_Date"
  by (cases "expiresAt v") (simp_all add: serialize_def)



section \<open>The token endpoint\<close>

text \<open>
  What a call with a code that is present does, whatever the expiry of its record: the
  code's entry is replaced by an entry for the new key, and the store is saved.
\<close>

lemma exchange_hit:
  assumes "code params = Some k" and "k \<noteq> []" and "Map_get k (tokens s) = Some r"
  shows "exchangeAuthorizationCode now rnd fs_ok params s =
           (Inr \<lparr>access_token = generateId rnd, token_type = ''Bearer'',
                  expires_in = (case getTime (expiresAt r) of
                                  None \<Rightarrow> 3600
                                | Some t \<Rightarrow>
                                    if 0 < (t - now) div 1000
                                    then (t - now) div 1000 else 3600),
                  refresh_token = None, resp_scope = None\<rparr>,
            saveTokensToDisk fs_ok
              (s\<lparr>tokens := Map_set (generateId rnd) r (Map_delete k (tokens s))\<rparr>))"
  using assms
  by (cases "expiresAt r") (simp_all add: exchangeAuthorizationCode_def Let_def)

lemma exchange_miss:
  assumes "code params = Some k" and "k \<noteq> []" and "Map_get k (tokens s) = None"
  shows "exchangeAuthorizationCode now rnd fs_ok params s =
           (Inl (OAuthProxyError ''invalid_grant''
                   ''Invalid or expired authorization code'' 400), s)"
  using assms by (simp add: exchangeAuthorizationCode_def)

text \<open>
  C1. The claim: a code whose record is in the Token Store with an expiry in the past
  is refused with \<open>invalid_grant\<close>. The code does not look at the expiry. Here the
  record under the code expired at 620000, the call comes at 630000, and it succeeds:
  the answer carries a new access token and the default lifetime of 3600 seconds.
\<close>

theorem exchange_accepts_expired_code:
  "Map_get (generateId bytes_a) (tokens proxy_with_code) = Some token_U1
   \<and> date_lt (expiresAt token_U1) 630000
   \<and> fst (exchangeAuthorizationCode 630000 bytes_b True
            (code_params (Some (generateId bytes_a))) proxy_with_code)
       = Inr response_3600"
  by (simp add: exchangeAuthorizationCode_def code_params_def proxy_with_code_def
      token_U1_def response_3600_def Map_get_def Let_def generateId_bytes_a)

text \<open>
  The validation path on the same store at the same time: \<open>loadUpstreamTokens\<close>
  tests the expiry, deletes the record and answers that there is no token.
\<close>

lemma loadUpstreamTokens_refuses_expired:
  "fst (loadUpstreamTokens 630000 True (generateId bytes_a) proxy_with_code) = None
   \<and> tokens (snd (loadUpstreamTokens 630000 True (generateId bytes_a) proxy_with_code)) = []"
  by (simp add: loadUpstreamTokens_def proxy_with_code_def token_U1_def Map_get_def
      Map_delete_def saveTokensToDisk_stores)

text \<open>
  C2. A minted proxy code \<open>k\<close> (an identifier made from sixteen random bytes) with an
  unexpired record \<open>r\<close> in the Token Store is exchangeable once. The first call
  succeeds and returns the freshly generated key as \<open>access_token\<close>; afterwards
  \<open>k\<close> is gone and the new key holds the same record \<open>r\<close>; every later call with
  \<open>k\<close> on that state fails with \<open>invalid_grant\<close>.
\<close>

theorem exchange_once:
  assumes minted: "k = generateId r0" "length r0 = 16"
    and present: "Map_get k (tokens s) = Some r"
    and unexpired: "date_gt (expiresAt r) now"
    and fresh: "generateId rnd \<noteq> k"
    and first: "code params = Some k"
  shows "\<exists>resp s'.
           exchangeAuthorizationCode now rnd fs_ok params s = (Inr resp, s')
           \<and> access_token resp = generateId rnd
           \<and> Map_get k (tokens s') = None
           \<and> Map_get (generateId rnd) (tokens s') = Some r
           \<and> (\<forall>now' rnd' fs_ok' params'. code params' = Some k \<longrightarrow>
                 fst (exchangeAuthorizationCode now' rnd' fs_ok' params' s')
                   = Inl (OAuthProxyError ''invalid_grant''
                            ''Invalid or expired authorization code'' 400))"
proof -
  have "length k = 32" using minted by (simp add: length_generateId)
  then have ne: "k \<noteq> []" by auto
  define s' where
    "s' = saveTokensToDisk fs_ok
            (s\<lparr>tokens := Map_set (generateId rnd) r (Map_delete k (tokens s))\<rparr>)"
  have gone: "Map_get k (tokens s') = None"
    using fresh by (simp add: s'_def saveTokensToDisk_stores Map_get_Map_set Map_get_Map_delete)
  have kept: "Map_get (generateId rnd) (tokens s') = Some r"
    by (simp add: s'_def saveTokensToDisk_stores Map_get_Map_set)
  have again: "fst (exchangeAuthorizationCode now' rnd' fs_ok' params' s')
        = Inl (OAuthProxyError ''invalid_grant'' ''Invalid or expired authorization code'' 400)"
    if "code params' = Some k" for now' rnd' fs_ok' params'
    using exchange_miss [OF that ne gone] by simp
  from exchange_hit [OF first ne present, of now rnd fs_ok] gone kept again
  show ?thesis unfolding s'_def by auto
qed

theorem exchange_once_witness:
  "Map_get (generateId bytes_a) (tokens proxy_with_code) = Some token_U1
   \<and> date_gt (expiresAt token_U1) 600000
   \<and> generateId bytes_b \<noteq> generateId bytes_a
   \<and> (\<exists>resp s'.
         exchangeAuthorizationCode 600000 bytes_b True
           (code_params (Some (generateId bytes_a))) proxy_with_code = (Inr resp, s')
         \<and> access_token resp = generateId bytes_b
         \<and> Map_get (generateId bytes_a) (tokens s') = None
         \<and> Map_get (generateId bytes_b) (tokens s') = Some token_U1
         \<and> fst (exchangeAuthorizationCode 600001 bytes_b True
                  (code_params (Some (generateId bytes_a))) s')
             = Inl (OAuthProxyError ''invalid_grant''
                      ''Invalid or expired authorization code'' 400))"
proof -
  have p: "Map_get (generateId bytes_a) (tokens proxy_with_code) = Some token_U1"
    by (simp add: proxy_with_code_def Map_get_def)
  have u: "date_gt (expiresAt token_U1) 600000"
    by (simp add: token_U1_def)
  have f: "generateId bytes_b \<noteq> generateId bytes_a"
    by (simp add: generateId_bytes_a generateId_bytes_b)
  have l: "length bytes_a = 16"
    by (simp add: bytes_a_def)
  have c: "code (code_params (Some (generateId bytes_a))) = Some (generateId bytes_a)"
    by (simp add: code_params_def)
  from exchange_once [OF refl l p u f c, of True] c p u f
  show ?thesis by blast
qed

text \<open>
  C7. A successful exchange reports \<open>floor ((expiresAt - now) / 1000)\<close> when that is
  positive and 3600 otherwise, in particular when the stored expiry is not after
  \<open>now\<close> (it has passed, or it is the Invalid Date); the reported lifetime is positive.
\<close>

theorem exchange_expires_in:
  assumes "fst (exchangeAuthorizationCode now rnd fs_ok params s) = Inr resp"
  shows "\<exists>c r. code params = Some c \<and> Map_get c (tokens s) = Some r
           \<and> expires_in resp =
               (case getTime (expiresAt r) of
                  None \<Rightarrow> 3600
                | Some t \<Rightarrow> if 0 < (t - now) div 1000 then (t - now) div 1000 else 3600)
           \<and> (\<not> date_gt (expiresAt r) now \<longrightarrow> expires_in resp = 3600)
           \<and> 0 < expires_in resp"
proof (cases "code params")
  case None
  with assms show ?thesis by (simp add: exchangeAuthorizationCode_def)
next
  case (Some c)
  show ?thesis
  proof (cases "c = []")
    case True
    with Some assms show ?thesis by (simp add: exchangeAuthorizationCode_def)
  next
    case False
    show ?thesis
    proof (cases "Map_get c (tokens s)")
      case None
      with Some False assms show ?thesis by (simp add: exchange_miss)
    next
      case r: (Some r)
      from assms exchange_hit [OF Some False r, of now rnd fs_ok]
      have e: "expires_in resp =
                 (case getTime (expiresAt r) of
                    None \<Rightarrow> 3600
                  | Some t \<Rightarrow> if 0 < (t - now) div 1000 then (t - now) div 1000 else 3600)"
        by auto
      have n: "expires_in resp = 3600" if "\<not> date_gt (expiresAt r) now"
      proof (cases "expiresAt r")
        case (At t)
        with that have "\<not> 0 < (t - now) div 1000" by simp
        with e At show ?thesis by simp
      next
        case Invalid_Date
        with e show ?thesis by simp
      qed
      have "0 < expires_in resp"
        unfolding e by (cases "expiresAt r") simp_all
      with e n Some r show ?thesis by blast
    qed
  qed
qed

theorem exchange_expires_in_witness:
  "fst (exchangeAuthorizationCode 600000 bytes_b True
          (code_params (Some (generateId bytes_a))) proxy_with_code) = Inr response_20
   \<and> (\<exists>c r. code (code_params (Some (generateId bytes_a))) = Some c
          \<and> Map_get c (tokens proxy_with_code) = Some r
          \<and> expiresAt r = At 620000
          \<and> expires_in response_20 = (620000 - 600000) div 1000
          \<and> 0 < expires_in response_20)"
proof -
  have h: "fst (exchangeAuthorizationCode 600000 bytes_b True
          (code_params (Some (generateId bytes_a))) proxy_with_code) = Inr response_20"
    by (simp add: exchangeAuthorizationCode_def code_params_def proxy_with_code_def
        token_U1_def response_20_def Map_get_def Let_def generateId_bytes_a)
  have e: "expires_in response_20 = 20" by (simp add: response_20_def)
  have c: "code (code_params (Some (generateId bytes_a))) = Some (generateId bytes_a)"
    by (simp add: code_params_def)
  have m: "Map_get (generateId bytes_a) (tokens proxy_with_code) = Some token_U1"
    by (simp add: proxy_with_code_def Map_get_def)
  have t: "expiresAt token_U1 = At 620000" by (simp add: token_U1_def)
  from exchange_expires_in [OF h] h e c m t show ?thesis
    by auto
qed

text \<open>
  C8. The refresh grant fails with \<open>invalid_grant\<close> for every request, the empty
  refresh token included; it returns no token and changes nothing.
\<close>

theorem exchangeRefreshToken_invalid_grant:
  "exchangeRefreshToken params s =
     (Inl (OAuthProxyError ''invalid_grant''
             ''Refresh tokens are not supported. Please re-authenticate.'' 400), s)"
  by (simp add: exchangeRefreshToken_def)

theorem exchangeRefreshToken_invalid_grant_witness:
  "fst (exchangeRefreshToken (refresh_request []) proxy_with_code) =
     Inl (OAuthProxyError ''invalid_grant''
            ''Refresh tokens are not supported. Please re-authenticate.'' 400)
   \<and> snd (exchangeRefreshToken (refresh_request []) proxy_with_code) = proxy_with_code"
  using exchangeRefreshToken_invalid_grant [of "refresh_request []" proxy_with_code]
  by simp

section \<open>Callback\<close>

text \<open>
  C9. A callback request with neither \<open>state\<close> nor \<open>code\<close> (absent or empty) is
  answered with \<open>missing_state\<close>, and the proxy's state is as before.
\<close>

theorem handleCallback_missing_both:
  assumes "searchParams_get ''state'' request \<in> {None, Some []}"
    and "searchParams_get ''code'' request \<in> {None, Some []}"
  shows "handleCallback w request s = (Inr (Json_error 400 ''missing_state'' None), s)"
proof -
  from assms(1) have "searchParams_get ''state'' request = None
      \<or> searchParams_get ''state'' request = Some []" by simp
  then show ?thesis by (elim disjE) (simp_all add: handleCallback_def)
qed

theorem handleCallback_missing_both_witness:
  "searchParams_get ''state'' request_bare = None
   \<and> searchParams_get ''code'' request_bare = None
   \<and> handleCallback world_late request_bare proxy_with_tx
       = (Inr (Json_error 400 ''missing_state'' None), proxy_with_tx)"
proof -
  have a: "searchParams_get ''state'' request_bare = None"
    and b: "searchParams_get ''code'' request_bare = None"
    by (simp_all add: searchParams_get_def request_bare_def)
  from a b handleCallback_missing_both [of request_bare world_late proxy_with_tx]
  show ?thesis by simp
qed

lemma callback_params:
  assumes "searchParams_get ''state'' request = Some state" and "state \<noteq> []"
    and "searchParams_get ''code'' request = Some c" and "c \<noteq> []"
  shows "handleCallback w request s =
    (case Map_get state (transactions s) of
              None \<Rightarrow> (Inr (Json_error 400 ''invalid_state'' None), s)
            | Some transaction \<Rightarrow>
              if date_lt (tx_expiresAt transaction) (cb_now w)
              then (Inr (Json_error 400 ''transaction_expired'' None),
                    s\<lparr>transactions := Map_delete state (transactions s)\<rparr>)
              else
              (case cb_upstream w
                      \<lparr>req_url = tokenEndpoint (cfg s),
                       req_grant_type = ''authorization_code'',
                       req_code = c,
                       req_client_id = cfg_clientId (cfg s),
                       req_redirect_uri = baseUrl (cfg s) @ redirectPath (cfg s),
                       req_code_verifier = codeVerifier transaction\<rparr> of
                 Reply_throws \<Rightarrow> (Inl FetchError, s)
               | Reply_not_ok err \<Rightarrow>
                   (Inr (Json_error 400 ''token_exchange_failed'' (Some err)), s)
               | Reply_ok toks \<Rightarrow>
                   (let proxyToken = generateId (cb_random w);
                        lifetime = (case up_expires_in toks of
                                      None \<Rightarrow> 3600
                                    | Some n \<Rightarrow> if n = 0 then 3600 else n);
                        s1 = s\<lparr>tokens :=
                                 Map_set proxyToken
                                   \<lparr>accessToken = up_access_token toks,
                                    refreshToken = up_refresh_token toks,
                                    expiresAt =
                                      new_Date_value (cb_now_mint w + lifetime * 1000)\<rparr>
                                   (tokens s)\<rparr>;
                        s2 = saveTokensToDisk (cb_fs_ok w) s1
                    in if \<not> cb_url_valid w (clientCallbackUrl transaction)
                       then (Inl TypeError, s2)
                       else (Inr (Redirect 302 (clientCallbackUrl transaction)
                                    [(''code'', proxyToken),
                                     (''state'', clientState transaction)]),
                             s2\<lparr>transactions := Map_delete state (transactions s2)\<rparr>))))"
  using assms by (simp add: handleCallback_def)

lemma callback_expired_step:
  assumes "searchParams_get ''state'' request = Some state" and "state \<noteq> []"
    and "searchParams_get ''code'' request = Some c" and "c \<noteq> []"
    and "Map_get state (transactions s) = Some tx" and "date_lt (tx_expiresAt tx) (cb_now w)"
  shows "handleCallback w request s =
           (Inr (Json_error 400 ''transaction_expired'' None),
            s\<lparr>transactions := Map_delete state (transactions s)\<rparr>)"
  using assms(5,6) by (simp add: callback_params [OF assms(1-4)])

lemma callback_unknown_step:
  assumes "searchParams_get ''state'' request = Some state" and "state \<noteq> []"
    and "searchParams_get ''code'' request = Some c" and "c \<noteq> []"
    and "Map_get state (transactions s) = None"
  shows "handleCallback w request s = (Inr (Json_error 400 ''invalid_state'' None), s)"
  using assms(5) by (simp add: callback_params [OF assms(1-4)])

text \<open>
  A callback with a \<open>state\<close> and no \<open>code\<close> (absent or empty) is answered with
  \<open>missing_code\<close> whatever the stores hold, and changes nothing.
\<close>

lemma callback_without_code:
  assumes "searchParams_get ''state'' request = Some state" and "state \<noteq> []"
    and "searchParams_get ''code'' request \<in> {None, Some []}"
  shows "handleCallback w request s = (Inr (Json_error 400 ''missing_code'' None), s)"
proof -
  from assms(3) have "searchParams_get ''code'' request = None
      \<or> searchParams_get ''code'' request = Some []" by simp
  then show ?thesis
    using assms(1,2) by (elim disjE) (simp_all add: handleCallback_def)
qed

text \<open>
  C3 as stated fails: a callback whose \<open>state\<close> names a stored, expired transaction
  but which carries no \<open>code\<close> is answered with \<open>missing_code\<close>, and the
  transaction stays in the store. The tests for the two parameters come before the
  lookup.
\<close>

theorem handleCallback_expired_without_code:
  "searchParams_get ''state'' request_state_only = Some (generateId bytes_a)
   \<and> Map_get (generateId bytes_a) (transactions proxy_with_tx) = Some tx_old
   \<and> date_lt (tx_expiresAt tx_old) (cb_now world_late)
   \<and> handleCallback world_late request_state_only proxy_with_tx
       = (Inr (Json_error 400 ''missing_code'' None), proxy_with_tx)"
  by (simp add: searchParams_get_def request_state_only_def Map_get_def proxy_with_tx_def
      tx_old_def world_late_def handleCallback_def generateId_bytes_a)

text \<open>
  C3, amended: a callback with a non-empty \<open>code\<close> whose non-empty \<open>state\<close> names a
  stored transaction that has expired deletes that transaction (and changes nothing
  else) and answers \<open>transaction_expired\<close>; every later callback with the same
  \<open>state\<close> and a non-empty \<open>code\<close> is answered with \<open>invalid_state\<close>.
\<close>

theorem handleCallback_expired:
  assumes "searchParams_get ''state'' request = Some state" and "state \<noteq> []"
    and "searchParams_get ''code'' request = Some c" and "c \<noteq> []"
    and "Map_get state (transactions s) = Some tx" and "date_lt (tx_expiresAt tx) (cb_now w)"
  shows "\<exists>s'. handleCallback w request s
                 = (Inr (Json_error 400 ''transaction_expired'' None), s')
           \<and> s' = s\<lparr>transactions := Map_delete state (transactions s)\<rparr>
           \<and> Map_get state (transactions s') = None
           \<and> (\<forall>w' request' c'.
                 searchParams_get ''state'' request' = Some state
                 \<and> searchParams_get ''code'' request' = Some c' \<and> c' \<noteq> [] \<longrightarrow>
                 handleCallback w' request' s'
                   = (Inr (Json_error 400 ''invalid_state'' None), s'))"
proof -
  define s' where "s' = s\<lparr>transactions := Map_delete state (transactions s)\<rparr>"
  have gone: "Map_get state (transactions s') = None"
    by (simp add: s'_def Map_get_Map_delete)
  have "handleCallback w' request' s' = (Inr (Json_error 400 ''invalid_state'' None), s')"
    if "searchParams_get ''state'' request' = Some state"
      and "searchParams_get ''code'' request' = Some c'" and "c' \<noteq> []"
    for w' request' c'
    using callback_unknown_step [OF that(1) assms(2) that(2,3) gone] .
  with callback_expired_step [OF assms] gone show ?thesis
    unfolding s'_def by blast
qed

theorem handleCallback_expired_witness:
  "searchParams_get ''state'' request_both = Some (generateId bytes_a)
   \<and> searchParams_get ''code'' request_both = Some ''upstreamcode123''
   \<and> Map_get (generateId bytes_a) (transactions proxy_with_tx) = Some tx_old
   \<and> date_lt (tx_expiresAt tx_old) (cb_now world_late)
   \<and> (\<exists>s'. handleCallback world_late request_both proxy_with_tx
                 = (Inr (Json_error 400 ''transaction_expired'' None), s')
         \<and> Map_get (generateId bytes_a) (transactions s') = None
         \<and> handleCallback world_late request_both s'
             = (Inr (Json_error 400 ''invalid_state'' None), s'))"
proof -
  have a: "searchParams_get ''state'' request_both = Some (generateId bytes_a)"
    by (simp add: searchParams_get_def request_both_def)
  have b: "searchParams_get ''code'' request_both = Some ''upstreamcode123''"
    by (simp add: searchParams_get_def request_both_def)
  have c: "Map_get (generateId bytes_a) (transactions proxy_with_tx) = Some tx_old"
    by (simp add: Map_get_def proxy_with_tx_def)
  have d: "date_lt (tx_expiresAt tx_old) (cb_now world_late)"
    by (simp add: tx_old_def world_late_def)
  have n: "generateId bytes_a \<noteq> []" by (simp add: generateId_bytes_a)
  have m: "''upstreamcode123'' \<noteq> []" by simp
  from handleCallback_expired [OF a n b m c d] a b c d m
  show ?thesis by blast
qed

section \<open>Token validation\<close>

lemma first_valid_Some:
  "first_valid now es = Some t \<Longrightarrow> t \<in> snd ` set es \<and> date_gt (expiresAt t) now"
  by (induction now es rule: first_valid.induct) (auto split: if_splits)

lemma first_valid_None:
  "first_valid now es = None \<Longrightarrow> \<forall>t \<in> snd ` set es. \<not> date_gt (expiresAt t) now"
  by (induction now es rule: first_valid.induct) (auto split: if_splits)

text \<open>
  C10. \<open>getFirstValidToken\<close> returns a record of the Token Store that expires strictly
  after \<open>now\<close> when there is one, and nothing when there is none; the proxy's state
  (both stores, the file, the number of writes) is as before.
\<close>

theorem getFirstValidToken_spec:
  "snd (getFirstValidToken now s) = s \<and>
   (case fst (getFirstValidToken now s) of
      Some t \<Rightarrow> t \<in> snd ` set (tokens s) \<and> date_gt (expiresAt t) now
    | None \<Rightarrow> \<forall>t \<in> snd ` set (tokens s). \<not> date_gt (expiresAt t) now)"
  by (auto simp: getFirstValidToken_def split: option.splits
      dest: first_valid_Some first_valid_None)

theorem getFirstValidToken_spec_witness:
  "getFirstValidToken 630000 proxy_mixed = (Some token_U2, proxy_mixed)
   \<and> token_U2 \<in> snd ` set (tokens proxy_mixed)
   \<and> date_gt (expiresAt token_U2) 630000
   \<and> tokens proxy_mixed = [(generateId bytes_a, token_U1), (generateId bytes_b, token_U2)]
   \<and> \<not> date_gt (expiresAt token_U1) 630000"
proof -
  have e: "getFirstValidToken 630000 proxy_mixed = (Some token_U2, proxy_mixed)"
    by (simp add: getFirstValidToken_def proxy_mixed_def token_U1_def token_U2_def)
  have t: "tokens proxy_mixed = [(generateId bytes_a, token_U1), (generateId bytes_b, token_U2)]"
    by (simp add: proxy_mixed_def)
  have "\<not> date_gt (expiresAt token_U1) 630000" by (simp add: token_U1_def)
  with getFirstValidToken_spec [of 630000 proxy_mixed] e t show ?thesis by simp
qed

section \<open>Sweeper\<close>

lemma sweep_transactions_filter:
  "sweep_transactions now es m =
     filter (\<lambda>e. fst e \<notin> fst ` {x \<in> set es. date_lt (tx_expiresAt (snd x)) now}) m"
proof (induction es arbitrary: m)
  case Nil
  then show ?case by simp
next
  case (Cons x es)
  obtain key tx where x: "x = (key, tx)" by (cases x)
  show ?case
  proof (cases "date_lt (tx_expiresAt tx) now")
    case True
    then have "fst ` {y \<in> set (x # es). date_lt (tx_expiresAt (snd y)) now}
          = insert key (fst ` {y \<in> set es. date_lt (tx_expiresAt (snd y)) now})"
      using x by force
    with True x Cons.IH [of "Map_delete key m"] show ?thesis
      by (auto simp: Map_delete_def intro: filter_cong)
  next
    case False
    then have "{y \<in> set (x # es). date_lt (tx_expiresAt (snd y)) now}
          = {y \<in> set es. date_lt (tx_expiresAt (snd y)) now}"
      using x by auto
    with False x Cons.IH [of m] show ?thesis by simp
  qed
qed

lemma sweep_tokens_filter:
  "sweep_tokens now es (m, b) =
     (filter (\<lambda>e. fst e \<notin> fst ` {x \<in> set es. date_lt (expiresAt (snd x)) now}) m,
      b \<or> (\<exists>x \<in> set es. date_lt (expiresAt (snd x)) now))"
proof (induction es arbitrary: m b)
  case Nil
  then show ?case by simp
next
  case (Cons x es)
  obtain key tok where x: "x = (key, tok)" by (cases x)
  show ?case
  proof (cases "date_lt (expiresAt tok) now")
    case True
    then have "fst ` {y \<in> set (x # es). date_lt (expiresAt (snd y)) now}
          = insert key (fst ` {y \<in> set es. date_lt (expiresAt (snd y)) now})"
      using x by force
    with True x Cons.IH [of "Map_delete key m" True] show ?thesis
      by (auto simp: Map_delete_def intro: filter_cong)
  next
    case False
    then have "{y \<in> set (x # es). date_lt (expiresAt (snd y)) now}
          = {y \<in> set es. date_lt (expiresAt (snd y)) now}"
      using x by auto
    with False x Cons.IH [of m b] show ?thesis by auto
  qed
qed




text \<open>
  Such a record comes from the callback: the upstream answer gives a lifetime so long
  that the expiry is past the range of \<^verbatim>\<open>Date\<close>. The record is minted under the new
  code, and already the save that follows writes nothing.
\<close>

lemma handleCallback_mints_invalid_date:
  "handleCallback world_huge request_both proxy_with_live_tx =
     (Inr (Redirect 302 ''https://client/cb''
             [(''code'', generateId bytes_c), (''state'', ''xyz'')]),
      proxy_with_live_tx
        \<lparr>transactions := [],
         tokens := [(generateId bytes_b, token_U2), (generateId bytes_c, token_bad)]\<rparr>)"
  by (simp add: handleCallback_def searchParams_get_def request_both_def
      proxy_with_live_tx_def tx_live_def world_huge_def upstream_huge_def every_url_def
      Map_get_def Map_delete_def new_Date_value_def saveTokensToDisk_def serialize_def
      token_U2_def token_bad_def Let_def
      generateId_bytes_a generateId_bytes_b generateId_bytes_c)



section \<open>PKCE material\<close>

lemma length_base64url: "length (base64url bs) = (4 * length bs + 2) div 3"
  by (induction bs rule: base64url.induct) auto

lemma byte_less: "unat (b :: byte) < 256"
  using unsigned_less [of b] by simp

lemma base64url_alphabet_safe: "list_all url_safe base64url_alphabet"
  by (simp add: base64url_alphabet_def url_safe_def is_letter_def is_digit_def)

lemma base64url_char_safe: "n < 64 \<Longrightarrow> url_safe (base64url_char n)"
proof -
  assume "n < 64"
  moreover have "length base64url_alphabet = 64" by (simp add: base64url_alphabet_def)
  ultimately show ?thesis
    using base64url_alphabet_safe
    unfolding base64url_char_def by (simp add: list_all_length)
qed

lemma sextets:
  "unat (a :: byte) div 4 < 64"
  "unat (a :: byte) mod 4 * 16 + unat (b :: byte) div 16 < 64"
  "unat (b :: byte) mod 16 * 4 + unat (c :: byte) div 64 < 64"
  "unat (c :: byte) mod 64 < 64"
  "unat (a :: byte) mod 4 * 16 < 64"
  "unat (b :: byte) mod 16 * 4 < 64"
  using byte_less [of a] byte_less [of b] byte_less [of c] by arith+

lemma base64url_safe: "list_all url_safe (base64url bs)"
  by (induction bs rule: base64url.induct) (simp_all add: base64url_char_safe sextets)

text \<open>
  C6. For the pair that \<open>generatePKCE\<close> makes from 32 random bytes, the challenge is
  the base64url text of the SHA-256 digest of the verifier, and the verifier is made of
  URL-safe characters and is between 43 and 128 characters long (it has 43).
\<close>

theorem generatePKCE_spec:
  assumes "length rnd = 32"
  shows "challenge (generatePKCE sha256 rnd)
           = base64url (sha256 (utf8 (verifier (generatePKCE sha256 rnd))))
         \<and> list_all url_safe (verifier (generatePKCE sha256 rnd))
         \<and> 43 \<le> length (verifier (generatePKCE sha256 rnd))
         \<and> length (verifier (generatePKCE sha256 rnd)) \<le> 128"
  using assms by (simp add: generatePKCE_def Let_def base64url_safe length_base64url)

theorem generatePKCE_spec_witness:
  "length bytes_32 = 32
   \<and> challenge (generatePKCE example_digest bytes_32)
       = base64url (example_digest (utf8 (verifier (generatePKCE example_digest bytes_32))))
   \<and> list_all url_safe (verifier (generatePKCE example_digest bytes_32))
   \<and> length (verifier (generatePKCE example_digest bytes_32)) = 43"
proof -
  have l: "length bytes_32 = 32" by (simp add: bytes_32_def bytes_a_def bytes_b_def)
  have "length (verifier (generatePKCE example_digest bytes_32)) = 43"
    by (simp add: generatePKCE_def Let_def length_base64url l)
  with generatePKCE_spec [OF l, of example_digest] l show ?thesis by simp
qed

section \<open>Persistence\<close>




text \<open>
  When no record holds the Invalid Date, the loop of \<^verbatim>\<open>saveTokensToDisk\<close> writes
  every entry of the Map into the object except one under \<open>__proto__\<close>; enumerating
  the object reorders the entries and keeps them.
\<close>

lemma Map_set_fresh: "k \<notin> fst ` set m \<Longrightarrow> Map_set k v m = m @ [(k, v)]"
  by (induction m) auto

lemma collect_toStore_valid:
  assumes "distinct (map fst es)" and "fst ` set es \<inter> fst ` set acc = {}"
    and "\<And>e. e \<in> set es \<Longrightarrow> expiresAt (snd e) \<noteq> Invalid_Date"
  shows "collect_toStore es acc
           = Some (acc @ map (\<lambda>e. (fst e, the (serialize (snd e))))
                           (filter (\<lambda>e. fst e \<noteq> ''__proto__'') es))"
  using assms
proof (induction es arbitrary: acc)
  case Nil
  then show ?case by simp
next
  case (Cons x es)
  obtain key v where x: "x = (key, v)" by (cases x)
  have "expiresAt v \<noteq> Invalid_Date" using Cons.prems(3) [of x] x by simp
  then obtain sv where sv: "serialize v = Some sv"
    using serialize_None [of v] by (cases "serialize v") auto
  have d: "distinct (map fst es)" using Cons.prems(1) by simp
  have v: "expiresAt (snd e) \<noteq> Invalid_Date" if "e \<in> set es" for e
    using Cons.prems(3) [of e] that by simp
  show ?case
  proof (cases "key = ''__proto__''")
    case True
    from Cons.prems(2) have i: "fst ` set es \<inter> fst ` set acc = {}" by auto
    have "collect_toStore es acc
           = Some (acc @ map (\<lambda>e. (fst e, the (serialize (snd e))))
                           (filter (\<lambda>e. fst e \<noteq> ''__proto__'') es))"
      by (rule Cons.IH [OF d i]) (rule v)
    with True x sv show ?thesis by (simp add: obj_assign_def)
  next
    case False
    from Cons.prems(2) x have fresh: "key \<notin> fst ` set acc" by auto
    from Cons.prems(1,2) x have i: "fst ` set es \<inter> fst ` set (acc @ [(key, sv)]) = {}"
      by auto
    have "collect_toStore es (acc @ [(key, sv)])
           = Some ((acc @ [(key, sv)]) @ map (\<lambda>e. (fst e, the (serialize (snd e))))
                           (filter (\<lambda>e. fst e \<noteq> ''__proto__'') es))"
      by (rule Cons.IH [OF d i]) (rule v)
    with False x sv fresh show ?thesis
      by (simp add: obj_assign_def Map_set_fresh)
  qed
qed

lemma set_Object_entries: "set (Object_entries obj) = set obj"
  by (auto simp: Object_entries_def)

lemma distinct_Object_entries:
  assumes "distinct (map fst obj)"
  shows "distinct (map fst (Object_entries obj))"
proof -
  from assms have d: "distinct obj" and i: "inj_on fst (set obj)"
    by (simp_all add: distinct_map)
  have "distinct (Object_entries obj)"
    using d by (auto simp: Object_entries_def)
  with i show ?thesis
    by (simp add: distinct_map set_Object_entries)
qed

lemma map_of_Object_entries:
  "distinct (map fst obj) \<Longrightarrow> map_of (Object_entries obj) = map_of obj"
  by (simp add: map_of_inject_set distinct_Object_entries set_Object_entries)

text \<open>
  The load, when the clock readings lie between \<open>lo\<close> and \<open>hi\<close> and no entry of the
  file expires in between: an entry is taken exactly when its expiry is after \<open>hi\<close>.
\<close>

lemma date_gt_between:
  assumes "lo \<le> c" and "c \<le> hi" and "date_gt d hi \<or> \<not> date_gt d lo"
  shows "date_gt d c \<longleftrightarrow> date_gt d hi"
  using assms by (cases d) auto

lemma load_entries_get:
  assumes "distinct (map fst es)"
    and "\<And>j. lo \<le> clock j \<and> clock j \<le> hi"
    and "\<And>e. e \<in> set es \<Longrightarrow>
           date_gt (new_Date (ser_expiresAt (snd e))) hi
           \<or> \<not> date_gt (new_Date (ser_expiresAt (snd e))) lo"
  shows "Map_get k (load_entries clock i es m) =
           (case map_of es k of
              None \<Rightarrow> Map_get k m
            | Some v \<Rightarrow>
                if date_gt (new_Date (ser_expiresAt v)) hi
                then Some \<lparr>accessToken = ser_accessToken v,
                           refreshToken = ser_refreshToken v,
                           expiresAt = new_Date (ser_expiresAt v)\<rparr>
                else Map_get k m)"
  using assms(1,3)
proof (induction es arbitrary: i m)
  case Nil
  then show ?case by simp
next
  case (Cons x es)
  obtain key v where x: "x = (key, v)" by (cases x)
  have later: "map_of es key = None"
    using Cons.prems(1) x by (simp add: map_of_eq_None_iff)
  have d': "distinct (map fst es)" using Cons.prems(1) by simp
  have w': "date_gt (new_Date (ser_expiresAt (snd e))) hi
            \<or> \<not> date_gt (new_Date (ser_expiresAt (snd e))) lo"
    if "e \<in> set es" for e
    using Cons.prems(2) [of e] that by simp
  have IH: "Map_get k (load_entries clock (Suc i) es m') =
           (case map_of es k of
              None \<Rightarrow> Map_get k m'
            | Some v \<Rightarrow>
                if date_gt (new_Date (ser_expiresAt v)) hi
                then Some \<lparr>accessToken = ser_accessToken v,
                           refreshToken = ser_refreshToken v,
                           expiresAt = new_Date (ser_expiresAt v)\<rparr>
                else Map_get k m')" for m'
    by (rule Cons.IH [OF d']) (rule w')
  from Cons.prems(2) [of x] x
  have w: "date_gt (new_Date (ser_expiresAt v)) hi
           \<or> \<not> date_gt (new_Date (ser_expiresAt v)) lo" by simp
  from assms(2) [of i] w
  have c: "date_gt (new_Date (ser_expiresAt v)) (clock i)
           \<longleftrightarrow> date_gt (new_Date (ser_expiresAt v)) hi"
    by (intro date_gt_between) auto
  from x c later IH show ?case
    by (auto simp: Map_get_Map_set Let_def split: option.splits)
qed

lemma new_Date_serialize:
  "expiresAt v \<noteq> Invalid_Date \<Longrightarrow> new_Date (ser_expiresAt (the (serialize v))) = expiresAt v"
  by (cases "expiresAt v") (simp_all add: serialize_def)

lemma deserialize_serialize:
  "expiresAt v \<noteq> Invalid_Date \<Longrightarrow>
   \<lparr>accessToken = ser_accessToken (the (serialize v)),
    refreshToken = ser_refreshToken (the (serialize v)),
    expiresAt = expiresAt v\<rparr> = v"
  by (cases "expiresAt v") (simp_all add: serialize_def)

lemma map_of_serialized:
  "map_of (map (\<lambda>e. (fst e, f (snd e))) (filter (\<lambda>e. fst e \<noteq> p) xs)) k
     = (if k = p then None else map_option f (map_of xs k))"
  by (induction xs) auto

text \<open>
  Saving a store in which every record holds a valid date, and starting the next
  process on the saved file. The clock readings of the load lie between \<open>lo\<close> and
  \<open>hi\<close>, and no record expires in between. Then the next process holds, under their
  keys, exactly the records that expire after the load, except a record under the key
  \<open>__proto__\<close>, which is never written.
\<close>

lemma save_then_start:
  assumes d: "distinct (Map_keys (tokens s))"
    and valid: "\<And>e. e \<in> set (tokens s) \<Longrightarrow> expiresAt (snd e) \<noteq> Invalid_Date"
    and clock: "\<And>j. lo \<le> clock j \<and> clock j \<le> hi"
    and window: "\<And>e. e \<in> set (tokens s) \<Longrightarrow>
                   date_gt (expiresAt (snd e)) hi \<or> \<not> date_gt (expiresAt (snd e)) lo"
  shows "Map_get k (tokens (new_PKCEOAuthProxy options (disk (saveTokensToDisk True s)) clock))
           = (if k = ''__proto__'' then None
              else case Map_get k (tokens s) of
                     None \<Rightarrow> None
                   | Some v \<Rightarrow> if date_gt (expiresAt v) hi then Some v else None)"
proof -
  define obj where
    "obj = map (\<lambda>e. (fst e, the (serialize (snd e))))
             (filter (\<lambda>e. fst e \<noteq> ''__proto__'') (tokens s))"
  define es where "es = Object_entries (Object_entries obj)"
  have keys: "map fst obj = filter (\<lambda>k. k \<noteq> ''__proto__'') (map fst (tokens s))"
    by (simp add: obj_def filter_map comp_def)
  have dobj: "distinct (map fst obj)"
    using d by (simp add: keys Map_keys_def)
  have "collect_toStore (tokens s) [] = Some ([] @ obj)"
    unfolding obj_def
    by (rule collect_toStore_valid) (use d valid in \<open>simp_all add: Map_keys_def\<close>)
  then have saved: "disk (saveTokensToDisk True s) = Stored (Object_entries obj)"
    by (simp add: saveTokensToDisk_def)
  have loaded: "tokens (new_PKCEOAuthProxy options (disk (saveTokensToDisk True s)) clock)
      = load_entries clock 0 es []"
    by (simp add: new_PKCEOAuthProxy_def loadTokensFromDisk_def saved es_def)
  have des: "distinct (map fst es)"
    unfolding es_def by (intro distinct_Object_entries dobj)
  have mes: "map_of es = map_of obj"
    unfolding es_def by (simp add: map_of_Object_entries distinct_Object_entries dobj)
  have wes: "date_gt (new_Date (ser_expiresAt (snd e))) hi
             \<or> \<not> date_gt (new_Date (ser_expiresAt (snd e))) lo"
    if "e \<in> set es" for e
  proof -
    from that have "e \<in> set obj" by (simp add: es_def set_Object_entries)
    then obtain x where x: "x \<in> set (tokens s)"
      and e: "e = (fst x, the (serialize (snd x)))"
      by (auto simp: obj_def)
    from e valid [OF x]
    have "new_Date (ser_expiresAt (snd e)) = expiresAt (snd x)"
      by (simp add: new_Date_serialize)
    with window [OF x] show ?thesis by simp
  qed
  have look: "map_of obj k
      = (if k = ''__proto__'' then None
         else map_option (\<lambda>v. the (serialize v)) (Map_get k (tokens s)))"
    by (simp add: obj_def Map_get_def
        map_of_serialized [where f = "\<lambda>v. the (serialize v)"])
  have good: "expiresAt v \<noteq> Invalid_Date" if "Map_get k (tokens s) = Some v" for v
    using valid [of "(k, v)"] that by (auto simp: Map_get_def dest: map_of_SomeD)
  have "Map_get k (load_entries clock 0 es []) =
           (case map_of es k of
              None \<Rightarrow> Map_get k []
            | Some v \<Rightarrow>
                if date_gt (new_Date (ser_expiresAt v)) hi
                then Some \<lparr>accessToken = ser_accessToken v,
                           refreshToken = ser_refreshToken v,
                           expiresAt = new_Date (ser_expiresAt v)\<rparr>
                else Map_get k [])"
    by (rule load_entries_get [OF des clock]) (rule wes)
  also have "\<dots> = (if k = ''__proto__'' then None
              else case Map_get k (tokens s) of
                     None \<Rightarrow> None
                   | Some v \<Rightarrow> if date_gt (expiresAt v) hi then Some v else None)"
    unfolding mes look
    using good
    by (auto simp: new_Date_serialize deserialize_serialize Map_get_def
        split: option.splits)
  finally show ?thesis by (simp add: loaded)
qed

lemma distinct_load_entries:
  "distinct (Map_keys m) \<Longrightarrow> distinct (Map_keys (load_entries clock i es m))"
proof (induction es arbitrary: i m)
  case Nil
  then show ?case by simp
next
  case (Cons x es)
  obtain key v where x: "x = (key, v)" by (cases x)
  from Cons.prems show ?case
    unfolding x load_entries.simps
    by (intro Cons.IH) (auto simp: Let_def intro: distinct_Map_set)
qed

text \<open>
  The same with one clock reading \<open>now\<close> for the whole load.
\<close>

corollary save_then_start_at:
  assumes "distinct (Map_keys (tokens s))"
    and "\<And>e. e \<in> set (tokens s) \<Longrightarrow> expiresAt (snd e) \<noteq> Invalid_Date"
  shows "Map_get k (tokens (new_PKCEOAuthProxy options (disk (saveTokensToDisk True s))
                              (\<lambda>i. now)))
           = (if k = ''__proto__'' then None
              else case Map_get k (tokens s) of
                     None \<Rightarrow> None
                   | Some v \<Rightarrow> if date_gt (expiresAt v) now then Some v else None)"
  by (rule save_then_start [OF assms, of now _ now]) auto

text \<open>
  What the key \<open>__proto__\<close> does, for the record: a file with that member is loaded,
  the save writes an empty object, and the next process starts empty. No key the proxy
  mints is that key (\<open>generateId_never_proto\<close>), so this needs a file that the proxy
  did not write.
\<close>

lemma proto_key_not_written:
  "tokens (new_PKCEOAuthProxy example_cfg file_proto clock_late)
     = [(''__proto__'', token_P)]
   \<and> disk (saveTokensToDisk True (new_PKCEOAuthProxy example_cfg file_proto clock_late))
     = Stored []"
proof -
  have e: "Object_entries [(''__proto__'', v)] = [(''__proto__'', v)]"
    for v :: SerializedTokenData
    by (simp add: Object_entries_def is_array_index_def is_digit_def)
  have t: "tokens (new_PKCEOAuthProxy example_cfg file_proto clock_late)
             = [(''__proto__'', token_P)]"
    by (simp add: new_PKCEOAuthProxy_def loadTokensFromDisk_def file_proto_def e
        token_P_def clock_late_def)
  have o: "Object_entries ([] :: SerializedTokenData js_object) = []"
    by (simp add: Object_entries_def)
  have d: "disk (saveTokensToDisk True (new_PKCEOAuthProxy example_cfg file_proto clock_late))
             = Stored []"
    by (simp add: saveTokensToDisk_def t obj_assign_def o serialize_def token_P_def)
  from t d show ?thesis by simp
qed




section \<open>The operations keep one entry for each key\<close>

lemma saveTokensToDisk_keeps:
  "one_entry_per_key (saveTokensToDisk fs_ok s) = one_entry_per_key s"
  by (simp add: one_entry_per_key_def saveTokensToDisk_stores)

lemma new_PKCEOAuthProxy_keeps: "one_entry_per_key (new_PKCEOAuthProxy options f clock)"
proof -
  have e: "distinct (Map_keys ([] :: (string, TokenData) js_map))"
    by (simp add: Map_keys_def)
  have t: "distinct (Map_keys ([] :: (string, PKCETransaction) js_map))"
    by (simp add: Map_keys_def)
  show ?thesis
    by (cases f)
       (simp_all add: one_entry_per_key_def new_PKCEOAuthProxy_def loadTokensFromDisk_def
          distinct_load_entries e t)
qed

lemma exchangeAuthorizationCode_keeps:
  assumes "one_entry_per_key s"
  shows "one_entry_per_key (snd (exchangeAuthorizationCode now rnd fs_ok params s))"
proof (cases "code params")
  case None
  with assms show ?thesis by (simp add: exchangeAuthorizationCode_def)
next
  case (Some c)
  show ?thesis
  proof (cases "c = []")
    case True
    with Some assms show ?thesis by (simp add: exchangeAuthorizationCode_def)
  next
    case False
    show ?thesis
    proof (cases "Map_get c (tokens s)")
      case None
      with Some False assms show ?thesis by (simp add: exchange_miss)
    next
      case r: (Some r)
      from assms show ?thesis
        by (simp add: exchange_hit [OF Some False r] saveTokensToDisk_keeps)
           (simp add: one_entry_per_key_def distinct_Map_set distinct_Map_delete)
    qed
  qed
qed

lemma cleanup_pass_keeps:
  assumes "one_entry_per_key s"
  shows "one_entry_per_key (cleanup_pass now fs_ok s)"
  using assms
  by (simp add: one_entry_per_key_def cleanup_pass_def sweep_transactions_filter
      sweep_tokens_filter Map_keys_def Let_def saveTokensToDisk_stores distinct_map_filter)

lemma loadUpstreamTokens_keeps:
  assumes "one_entry_per_key s"
  shows "one_entry_per_key (snd (loadUpstreamTokens now fs_ok proxyToken s))"
  using assms
  by (auto simp: loadUpstreamTokens_def saveTokensToDisk_stores one_entry_per_key_def
      distinct_Map_delete split: option.splits)

lemma handleCallback_keeps:
  assumes "one_entry_per_key s"
  shows "one_entry_per_key (snd (handleCallback w request s))"
proof -
  have d: "one_entry_per_key (s\<lparr>transactions := Map_delete k (transactions s)\<rparr>)" for k
    using assms by (simp add: one_entry_per_key_def distinct_Map_delete)
  have m: "one_entry_per_key
             ((saveTokensToDisk b (s\<lparr>tokens := Map_set k v (tokens s)\<rparr>))
                \<lparr>transactions := Map_delete k'
                   (transactions (saveTokensToDisk b (s\<lparr>tokens := Map_set k v (tokens s)\<rparr>)))\<rparr>)"
    and m': "one_entry_per_key (saveTokensToDisk b (s\<lparr>tokens := Map_set k v (tokens s)\<rparr>))"
    for b k v k'
    using assms
    by (simp_all add: one_entry_per_key_def saveTokensToDisk_stores distinct_Map_delete
        distinct_Map_set)
  show ?thesis
    using assms d m m'
    by (simp add: handleCallback_def Let_def
        split: option.splits upstream_reply.splits)
qed

end
